theory Spec2Isabelle
  imports Main "HOL-Library.Sublist"
begin

section \<open>Values, promises and the Block object\<close>

text \<open>
  A JavaScript value as far as the \<open>time\<close> field of a block needs it: the field is
  dynamically typed, and the code stores a string where a number could stand.
\<close>

datatype jsval = JNum int | JStr string

text \<open>
  Every method of the class returns a Promise. A promise either resolves with a value,
  rejects with a reason (\<open>rej(null)\<close> is \<open>Rejected None\<close>), or never settles: an
  exception thrown inside an \<open>async\<close> executor rejects the executor's own promise
  and leaves the outer one pending for ever.
\<close>

datatype 'a promise = Resolved 'a | Rejected "string option" | Pending

text \<open>
  Modelled from the spec: the decoded payload of a Record (\<open>block.js\<close> is not among the
  sources). The payload is "either (a) a fixed genesis marker, or (b) a claim record
  \<open>{owner, star}\<close>". The call sites build \<open>{data: "Genesis Block"}\<close> and
  \<open>{data: {star, owner}}\<close>; the star is opaque to the chain and travels as its JSON
  text.
\<close>

type_synonym star = string

datatype bdata = Marker string | Claim (owner: string) (star: star)

text \<open>
  Modelled from the spec: the encoded payload, "an opaque, reversibly encoded
  representation" that "must round-trip exactly", whose decoding "fails with
  DecodeFailure if the stored bytes are not validly formed". A stored body is therefore
  either the encoding of some data or a byte string that encodes nothing.
\<close>

datatype payload = Encoded bdata | Malformed string

definition encode :: "bdata \<Rightarrow> payload" where
  "encode d = Encoded d"

fun decode :: "payload \<Rightarrow> bdata option" where
  "decode (Encoded d) = Some d"
| "decode (Malformed bytes) = None"

text \<open>
  The fields of a Block object, in the names the source reads and writes
  (\<open>block.height\<close>, \<open>block.previousBlockHash\<close>, \<open>block.time\<close>, \<open>block.hash\<close>);
  \<open>null\<close> is \<open>None\<close>.
\<close>

record block =
  hash :: "string option"
  height :: int
  body :: payload
  time :: jsval
  previousBlockHash :: "string option"

text \<open>
  Modelled from the spec: the constructor of the Block class (\<open>new Block(data)\<close>),
  which is in \<open>block.js\<close>. It stores the encoded payload; the hash is assigned at seal
  time only and \<open>previousHash\<close> is "null/absent only for genesis", which
  \<open>_addBlock\<close> never assigns in its genesis branch, so both start as \<open>null\<close>. The
  height and the time are placeholders: \<open>_addBlock\<close> overwrites both before the block
  is hashed and stored.
\<close>

definition Block :: "bdata \<Rightarrow> block" where
  "Block data = \<lparr>hash = None, height = 0, body = encode data, time = JNum 0,
     previousBlockHash = None\<rparr>"

text \<open>
  Modelled from the spec: \<open>getBData\<close> of the Block class decodes the payload;
  \<open>None\<close> is the decode failure, which the caller sees as an exception.
\<close>

definition getBData :: "block \<Rightarrow> bdata option" where
  "getBData b = decode (body b)"

section \<open>Strings and numbers of the JavaScript runtime\<close>

text \<open>\<open>Number.prototype.toString\<close> on an integer: decimal digits, a minus sign first.\<close>

definition digit_char :: "nat \<Rightarrow> char" where
  "digit_char d = char_of (48 + d)"

function digits :: "nat \<Rightarrow> string" where
  "digits n = (if n < 10 then [digit_char n] else digits (n div 10) @ [digit_char (n mod 10)])"
  by pat_completeness auto
termination
  by (relation "measure (\<lambda>n. n)") auto

declare digits.simps [simp del]

definition toString :: "int \<Rightarrow> string" where
  "toString i = (if i < 0 then CHR ''-'' # digits (nat (- i)) else digits (nat i))"

text \<open>
  \<open>s.slice(0, -3)\<close>: the string without its last three characters, empty when it has
  three or fewer (natural-number subtraction stops at 0, as \<open>max(len - 3, 0)\<close> does).
\<close>

definition slice_0_m3 :: "string \<Rightarrow> string" where
  "slice_0_m3 s = take (length s - 3) s"

text \<open>\<open>s.split(":")\<close>: the fields between colons; never an empty array.\<close>

fun split_colon :: "string \<Rightarrow> string list" where
  "split_colon [] = [[]]"
| "split_colon (c # cs) =
     (if c = CHR '':'' then [] # split_colon cs
      else (case split_colon cs of
              [] \<Rightarrow> [[c]]
            | f # fs \<Rightarrow> (c # f) # fs))"

text \<open>
  \<open>parseInt(string)\<close> with no radix: leading white space is skipped, then an optional
  sign, then a \<open>0x\<close>/\<open>0X\<close> prefix selects radix 16, then the longest prefix of
  digits of the radix is read; no digit at all gives \<open>NaN\<close>, which is \<open>None\<close>.
  Numbers are exact integers, as IEEE doubles are below \<open>2^53\<close>.

  A string of the model is the UTF-8 encoding of the JavaScript string, one
  \<open>char\<close> for each byte. \<open>space_prefix\<close> is the number of bytes of the white space
  character the string starts with, 0 when it starts with none. The white space of
  \<open>parseInt\<close> is TAB, LF, VT, FF, CR and SP (one byte each), U+00A0 (bytes C2 A0), and
  in three bytes U+1680, U+2000 to U+200A, U+2028, U+2029, U+202F, U+205F, U+3000 and
  U+FEFF. \<open>trimStart\<close> removes all leading white space.
\<close>

definition space_prefix :: "string \<Rightarrow> nat" where
  "space_prefix s =
     (case map of_char s :: nat list of
        [] \<Rightarrow> 0
      | b0 # bs \<Rightarrow>
          if b0 \<in> {9, 10, 11, 12, 13, 32} then 1
          else (case bs of
                  [] \<Rightarrow> 0
                | b1 # bs' \<Rightarrow>
                    if b0 = 194 \<and> b1 = 160 then 2
                    else (case bs' of
                            [] \<Rightarrow> 0
                          | b2 # bs'' \<Rightarrow>
                              if (b0 = 225 \<and> b1 = 154 \<and> b2 = 128)
                                 \<or> (b0 = 226 \<and> b1 = 128
                                     \<and> (128 \<le> b2 \<and> b2 \<le> 138 \<or> b2 = 168 \<or> b2 = 169
                                          \<or> b2 = 175))
                                 \<or> (b0 = 226 \<and> b1 = 129 \<and> b2 = 159)
                                 \<or> (b0 = 227 \<and> b1 = 128 \<and> b2 = 128)
                                 \<or> (b0 = 239 \<and> b1 = 187 \<and> b2 = 191)
                              then 3 else 0)))"

function trimStart :: "string \<Rightarrow> string" where
  "trimStart s = (if space_prefix s = 0 then s else trimStart (drop (space_prefix s) s))"
  by pat_completeness auto
termination
proof (relation "measure length")
  show "wf (measure length)" by simp
next
  fix s :: string
  assume p: "space_prefix s \<noteq> 0"
  then have "s \<noteq> []" by (auto simp: space_prefix_def)
  with p show "(drop (space_prefix s) s, s) \<in> measure length" by simp
qed

declare trimStart.simps [simp del]

definition digit_value :: "char \<Rightarrow> nat option" where
  "digit_value c =
     (let n = (of_char c :: nat) in
      if 48 \<le> n \<and> n \<le> 57 then Some (n - 48)
      else if 97 \<le> n \<and> n \<le> 102 then Some (n - 87)
      else if 65 \<le> n \<and> n \<le> 70 then Some (n - 55)
      else None)"

definition is_digit_in :: "nat \<Rightarrow> char \<Rightarrow> bool" where
  "is_digit_in radix c = (case digit_value c of None \<Rightarrow> False | Some v \<Rightarrow> v < radix)"

definition radix_value :: "nat \<Rightarrow> string \<Rightarrow> nat" where
  "radix_value radix z =
     foldl (\<lambda>acc c. case digit_value c of None \<Rightarrow> acc | Some v \<Rightarrow> acc * radix + v) 0 z"

definition parse_digits :: "nat \<Rightarrow> string \<Rightarrow> nat option" where
  "parse_digits radix s =
     (let z = takeWhile (is_digit_in radix) s in
      if z = [] then None else Some (radix_value radix z))"

definition parse_unsigned :: "string \<Rightarrow> nat option" where
  "parse_unsigned s =
     (case s of
        c0 # c1 # rest \<Rightarrow>
          (if c0 = CHR ''0'' \<and> (c1 = CHR ''x'' \<or> c1 = CHR ''X'') then parse_digits 16 rest
           else parse_digits 10 s)
      | _ \<Rightarrow> parse_digits 10 s)"

definition parseInt :: "string \<Rightarrow> int option" where
  "parseInt str =
     (let s = trimStart str in
      case s of
        [] \<Rightarrow> None
      | c # cs \<Rightarrow>
          if c = CHR ''-'' then map_option (\<lambda>n. - int n) (parse_unsigned cs)
          else if c = CHR ''+'' then map_option int (parse_unsigned cs)
          else map_option int (parse_unsigned s))"

section \<open>The Blockchain class\<close>

text \<open>
  The object state: \<open>this.chain\<close> and \<open>this.height\<close> (the field is called
  \<open>this_height\<close> here, \<open>height\<close> being the block's field).
\<close>

record blockchain =
  chain :: "block list"
  this_height :: int

definition FIVE_MINUTES_UTC :: int where
  "FIVE_MINUTES_UTC = 30000"

text \<open>
  \<open>new Date().getTime().toString().slice(0, -3)\<close>, for a clock that reads \<open>now\<close>
  milliseconds since the epoch.
\<close>

definition clock_seconds :: "int \<Rightarrow> string" where
  "clock_seconds now = slice_0_m3 (toString now)"

text \<open>
  \<open>_addBlock(block)\<close>. The parameter \<open>digest\<close> stands for
  \<open>SHA256(JSON.stringify(block)).toString()\<close>, a function of the field values of the
  block at the moment of the call (both are library code). Both call sites pass a
  newly constructed Block, so the object is not yet in the chain and the assignments
  to it change no stored block. \<open>sealBlock\<close> is the assignment of the time and
  of the hash, \<open>pushBlock\<close> is \<open>this.chain.push(block); res(block)\<close>. In the
  second branch \<open>++this.height\<close> runs before \<open>this.chain[this.chain.length - 1].hash\<close>
  is read; on an empty chain that read throws inside the executor, and the promise
  stays pending.
\<close>

definition sealBlock :: "(block \<Rightarrow> string) \<Rightarrow> int \<Rightarrow> block \<Rightarrow> block" where
  "sealBlock digest now b1 =
     (let b2 = b1\<lparr>time := JStr (clock_seconds now)\<rparr>
      in b2\<lparr>hash := Some (digest b2)\<rparr>)"

definition pushBlock :: "block \<Rightarrow> blockchain \<Rightarrow> block promise \<times> blockchain" where
  "pushBlock b s = (Resolved b, s\<lparr>chain := chain s @ [b]\<rparr>)"

definition addBlock :: "(block \<Rightarrow> string) \<Rightarrow> int \<Rightarrow> block \<Rightarrow> blockchain
    \<Rightarrow> block promise \<times> blockchain" where
  "addBlock digest now block0 s =
     (if this_height s = - 1
      then pushBlock (sealBlock digest now (block0\<lparr>height := 1\<rparr>)) (s\<lparr>this_height := 1\<rparr>)
      else
        (let s1 = s\<lparr>this_height := this_height s + 1\<rparr>;
             b1 = block0\<lparr>height := this_height s1\<rparr>
         in if chain s1 = [] then (Pending, s1)
            else pushBlock
                   (sealBlock digest now (b1\<lparr>previousBlockHash := hash (last (chain s1))\<rparr>))
                   s1))"

definition genesisData :: bdata where
  "genesisData = Marker ''Genesis Block''"

text \<open>
  \<open>initializeChain()\<close>; the constructor does not look at the promise it returns, so
  only the state is kept.
\<close>

definition initializeChain :: "(block \<Rightarrow> string) \<Rightarrow> int \<Rightarrow> blockchain \<Rightarrow> blockchain" where
  "initializeChain digest now s =
     (if this_height s = - 1 then snd (addBlock digest now (Block genesisData) s) else s)"

text \<open>
  \<open>new Blockchain()\<close>. The executor of \<open>_addBlock\<close> has no suspension point, so the
  genesis block is in the chain when the constructor returns.
\<close>

definition newBlockchain :: "(block \<Rightarrow> string) \<Rightarrow> int \<Rightarrow> blockchain" where
  "newBlockchain digest now = initializeChain digest now \<lparr>chain = [], this_height = - 1\<rparr>"

definition getChainHeight :: "blockchain \<Rightarrow> int promise" where
  "getChainHeight s = Resolved (this_height s)"

definition requestMessageOwnershipVerification :: "int \<Rightarrow> string \<Rightarrow> string promise" where
  "requestMessageOwnershipVerification now address =
     Resolved (address @ '':'' @ clock_seconds now @ '':starRegistry'')"

text \<open>
  The first conjunct of the test in \<open>submitStar\<close>:
  \<open>currentTime - messageTimeStamp < FIVE_MINUTES_UTC\<close>, where
  \<open>messageTimeStamp = parseInt(message.split(":")[1])\<close> (\<open>undefined\<close> parses to
  \<open>NaN\<close>) and \<open>currentTime = parseInt(clock)\<close>. A comparison with \<open>NaN\<close> is false.
\<close>

definition messageTimeStamp :: "string \<Rightarrow> int option" where
  "messageTimeStamp message =
     (case split_colon message of
        f0 # f1 # fs \<Rightarrow> parseInt f1
      | _ \<Rightarrow> None)"

definition currentTime :: "int \<Rightarrow> int option" where
  "currentTime now = parseInt (clock_seconds now)"

definition withinWindow :: "int \<Rightarrow> string \<Rightarrow> bool" where
  "withinWindow now message =
     (case (currentTime now, messageTimeStamp message) of
        (Some c, Some m) \<Rightarrow> c - m < FIVE_MINUTES_UTC
      | _ \<Rightarrow> False)"

text \<open>
  \<open>submitStar(address, message, signature, star)\<close>. The parameter \<open>verify\<close> is
  \<open>bitcoinMessage.verify\<close>, which returns a boolean or throws (\<open>None\<close>; the helper
  script of the repository records its "Non-base58 character" error). \<open>&&\<close> calls it
  only when the time test has passed. An exception inside the executor leaves the
  promise pending.
\<close>

definition submitStar :: "(block \<Rightarrow> string) \<Rightarrow> (string \<Rightarrow> string \<Rightarrow> string \<Rightarrow> bool option)
    \<Rightarrow> int \<Rightarrow> string \<Rightarrow> string \<Rightarrow> string \<Rightarrow> star \<Rightarrow> blockchain
    \<Rightarrow> block promise \<times> blockchain" where
  "submitStar digest verify now address message signature st s =
     (if withinWindow now message
      then (case verify message address signature of
              None \<Rightarrow> (Pending, s)
            | Some True \<Rightarrow> addBlock digest now (Block (Claim address st)) s
            | Some False \<Rightarrow> (Rejected None, s))
      else (Rejected None, s))"

text \<open>\<open>getBlockByHash(hash)\<close> and \<open>getBlockByHeight(height)\<close>: \<open>Array.prototype.find\<close>,
  then \<open>block ?? null\<close>.\<close>

definition getBlockByHash :: "blockchain \<Rightarrow> string option \<Rightarrow> block option promise" where
  "getBlockByHash s h = Resolved (find (\<lambda>b. hash b = h) (chain s))"

definition getBlockByHeight :: "blockchain \<Rightarrow> int \<Rightarrow> block option promise" where
  "getBlockByHeight s h = Resolved (find (\<lambda>b. height b = h) (chain s))"



text \<open>
  \<open>validateChain()\<close>. An entry of the error log is \<open>{hash: currentBlock.hash, valid:
  false}\<close>. The parameter \<open>validate\<close> is \<open>Block.validate\<close> of \<open>block.js\<close>:
  \<open>Some v\<close> when it resolves with \<open>v\<close>, \<open>None\<close> when it throws. One passage of
  the loop body for index \<open>i\<close>: at \<open>i = 0\<close> the read of \<open>self.chain[i - 1].hash\<close>
  throws, and the \<open>catch\<close> clause pushes the entry.
\<close>

record logEntry =
  entry_hash :: "string option"
  valid :: bool

definition errorEntry :: "block \<Rightarrow> logEntry" where
  "errorEntry b = \<lparr>entry_hash = hash b, valid = False\<rparr>"

definition validateStep :: "(block \<Rightarrow> bool option) \<Rightarrow> block list \<Rightarrow> nat \<Rightarrow> logEntry list
    \<Rightarrow> logEntry list" where
  "validateStep validate ch i errorLog =
     (let currentBlock = ch ! i in
      case validate currentBlock of
        None \<Rightarrow> errorLog @ [errorEntry currentBlock]
      | Some v \<Rightarrow>
          if v then
            (if previousBlockHash currentBlock = None \<and> height currentBlock = 1
             then errorLog
             else if i = 0 then errorLog @ [errorEntry currentBlock]
             else if previousBlockHash currentBlock \<noteq> hash (ch ! (i - 1))
                     \<or> height currentBlock \<noteq> height (ch ! (i - 1)) + 1
                  then errorLog @ [errorEntry currentBlock]
                  else errorLog)
          else errorLog @ [errorEntry currentBlock])"

function validateLoop :: "(block \<Rightarrow> bool option) \<Rightarrow> block list \<Rightarrow> nat \<Rightarrow> logEntry list
    \<Rightarrow> logEntry list" where
  "validateLoop validate ch i errorLog =
     (if i < length ch
      then validateLoop validate ch (i + 1) (validateStep validate ch i errorLog)
      else errorLog)"
  by pat_completeness auto
termination
  by (relation "measure (\<lambda>(validate, ch, i, errorLog). length ch - i)") auto

declare validateLoop.simps [simp del]

definition validateChain :: "(block \<Rightarrow> bool option) \<Rightarrow> blockchain \<Rightarrow> logEntry list promise" where
  "validateChain validate s = Resolved (validateLoop validate (chain s) 0 [])"

text \<open>
  Modelled from the spec: \<open>recomputeHash\<close> and \<open>validate\<close> of the Block class
  (\<open>block.js\<close>). \<open>recomputeHash\<close> "serializes all fields except hash ... and applies
  a cryptographic hash function"; \<open>validate\<close> "decodes the payload (to catch
  corruption) and compares \<open>recomputeHash()\<close> against the stored hash; returns false
  on any mismatch or decode failure; never throws".
\<close>

definition recomputeHash :: "(block \<Rightarrow> string) \<Rightarrow> block \<Rightarrow> string" where
  "recomputeHash digest b = digest (b\<lparr>hash := None\<rparr>)"

definition validate_block :: "(block \<Rightarrow> string) \<Rightarrow> block \<Rightarrow> bool option" where
  "validate_block digest b =
     Some (case decode (body b) of
             None \<Rightarrow> False
           | Some d \<Rightarrow> hash b = Some (recomputeHash digest b))"

section \<open>Chains, invariants and reference definitions\<close>

text \<open>
  The states that come from the empty object by calls of \<open>_addBlock\<close> alone, each
  with a newly constructed Block, as \<open>initializeChain\<close> and \<open>submitStar\<close> call it.
\<close>

inductive built :: "(block \<Rightarrow> string) \<Rightarrow> blockchain \<Rightarrow> bool" for digest where
  built_empty: "built digest \<lparr>chain = [], this_height = - 1\<rparr>"
| built_add: "built digest s \<Longrightarrow> built digest (snd (addBlock digest now (Block d) s))"

text \<open>The link invariant of the spec, for a list of Records.\<close>

definition linked :: "block list \<Rightarrow> bool" where
  "linked ch =
     (\<forall>i. 0 < i \<and> i < length ch \<longrightarrow>
        previousBlockHash (ch ! i) = hash (ch ! (i - 1))
        \<and> height (ch ! i) = height (ch ! (i - 1)) + 1)"

text \<open>The test that \<open>validateChain\<close> marks with the comment "genesis block".\<close>

definition genesisShaped :: "block \<Rightarrow> bool" where
  "genesisShaped b = (previousBlockHash b = None \<and> height b = 1)"


text \<open>
  A concrete digest for the worked instances: the text of the fields it is given, so
  that two blocks with different contents get different digests.
\<close>

definition fieldsText :: "block \<Rightarrow> string" where
  "fieldsText b =
     (case hash b of None \<Rightarrow> ''null'' | Some h \<Rightarrow> h) @ ''|'' @ toString (height b) @ ''|''
     @ (case body b of
          Encoded (Marker m) \<Rightarrow> m
        | Encoded (Claim ow st) \<Rightarrow> ow @ ''/'' @ st
        | Malformed bytes \<Rightarrow> bytes) @ ''|''
     @ (case time b of JNum n \<Rightarrow> toString n | JStr t \<Rightarrow> t) @ ''|''
     @ (case previousBlockHash b of None \<Rightarrow> ''null'' | Some h \<Rightarrow> h)"

text \<open>
  The block that \<open>_addBlock\<close> stores when it is given \<open>new Block(d)\<close> on a chain
  \<open>ch\<close> whose cached height is the number of its blocks.
\<close>

definition nextBlock :: "(block \<Rightarrow> string) \<Rightarrow> int \<Rightarrow> bdata \<Rightarrow> block list \<Rightarrow> block" where
  "nextBlock digest now d ch =
     sealBlock digest now
       ((Block d)\<lparr>height := int (length ch) + 1,
                 previousBlockHash := (if ch = [] then None else hash (last ch))\<rparr>)"

text \<open>
  Whether the passage of the loop of \<open>validateChain\<close> for index \<open>i\<close> pushes an entry.
\<close>

definition flagged :: "(block \<Rightarrow> bool option) \<Rightarrow> block list \<Rightarrow> nat \<Rightarrow> bool" where
  "flagged validate ch i = (validateStep validate ch i [] \<noteq> [])"

text \<open>
  Worked instances. \<open>scenarioLedger\<close> is a new ledger that has accepted one claim
  whose signature verifies, submitted 300 seconds after its challenge (the address and
  the message are those of \<open>scripts/validateSignature.js\<close>).
  \<open>splicedLedger\<close> is a chain state that no call of the class produces: the genesis
  block of a second ledger stored behind the genesis block of a first one.
  \<open>corruptLedger\<close> is the scenario ledger with one more Record behind it, a copy of
  its claim whose stored payload has been overwritten with bytes that decode to
  nothing.
\<close>

definition scenarioLedger :: blockchain where
  "scenarioLedger =
     snd (submitStar fieldsText (\<lambda>m a sg. Some True) 1638090352000
            ''1HZwkjkeaoZfTSaJxDw6aKkxp45agDiEzN''
            ''1HZwkjkeaoZfTSaJxDw6aKkxp45agDiEzN:1638090052:starRegistry'' ''sig'' ''star''
            (newBlockchain fieldsText 1638090052000))"

definition splicedLedger :: blockchain where
  "splicedLedger =
     \<lparr>chain = chain (newBlockchain fieldsText 1638090052000)
               @ chain (newBlockchain fieldsText 1638090352000),
      this_height = 1\<rparr>"


section \<open>The runtime functions\<close>

lemma digit_value_digit_char: "d < 10 \<Longrightarrow> digit_value (digit_char d) = Some d"
  by (simp add: digit_value_def digit_char_def)

lemma digits_small: "n < 10 \<Longrightarrow> digits n = [digit_char n]"
  by (subst digits.simps) simp

lemma digits_large: "10 \<le> n \<Longrightarrow> digits n = digits (n div 10) @ [digit_char (n mod 10)]"
  by (subst digits.simps) simp

lemma radix_value_snoc:
  "radix_value r (z @ [c]) =
     (case digit_value c of None \<Rightarrow> radix_value r z | Some v \<Rightarrow> radix_value r z * r + v)"
  by (simp add: radix_value_def split: option.splits)

lemma radix_value_digits: "radix_value 10 (digits n) = n"
proof (induction n rule: digits.induct)
  case (1 n)
  show ?case
  proof (cases "n < 10")
    case True
    then show ?thesis
      by (simp add: digits_small radix_value_def digit_value_digit_char)
  next
    case False
    then have "radix_value 10 (digits (n div 10)) = n div 10"
      using 1 by simp
    with False show ?thesis
      by (simp add: digits_large radix_value_snoc digit_value_digit_char)
  qed
qed

lemma digits_decimal: "c \<in> set (digits n) \<Longrightarrow> is_digit_in 10 c"
proof (induction n rule: digits.induct)
  case (1 n)
  show ?case
  proof (cases "n < 10")
    case True
    with 1(2) show ?thesis
      by (simp add: digits_small is_digit_in_def digit_value_digit_char)
  next
    case False
    with 1 show ?thesis
      by (auto simp: digits_large is_digit_in_def digit_value_digit_char)
  qed
qed

lemma digits_not_Nil: "digits n \<noteq> []"
  by (cases "n < 10") (simp_all add: digits_small digits_large)

lemma is_digit_in_10_cases:
  "is_digit_in 10 c \<Longrightarrow> space_prefix (c # r) = 0 \<and> c \<noteq> CHR ''-'' \<and> c \<noteq> CHR ''+'' \<and> c \<noteq> CHR ''x''
     \<and> c \<noteq> CHR ''X'' \<and> c \<noteq> CHR '':''"
  by (auto simp: is_digit_in_def digit_value_def space_prefix_def Let_def
      split: if_splits list.splits)

lemma parse_digits_digits: "parse_digits 10 (digits n) = Some n"
proof -
  have tw: "takeWhile (is_digit_in 10) (digits n) = digits n"
    by (simp add: takeWhile_eq_all_conv digits_decimal)
  show ?thesis
    unfolding parse_digits_def Let_def tw
    by (simp add: digits_not_Nil radix_value_digits)
qed

lemma parse_unsigned_digits: "parse_unsigned (digits n) = Some n"
proof (cases "digits n")
  case Nil
  then show ?thesis by (simp add: digits_not_Nil)
next
  case (Cons c0 r)
  show ?thesis
  proof (cases r)
    case Nil
    with Cons show ?thesis
      using parse_digits_digits [of n] by (simp add: parse_unsigned_def)
  next
    case (Cons c1 rest)
    with \<open>digits n = c0 # r\<close> have "c1 \<in> set (digits n)" by simp
    then have "c1 \<noteq> CHR ''x'' \<and> c1 \<noteq> CHR ''X''"
      using digits_decimal is_digit_in_10_cases by blast
    with Cons \<open>digits n = c0 # r\<close> show ?thesis
      using parse_digits_digits [of n] by (simp add: parse_unsigned_def)
  qed
qed

lemma parseInt_digits: "parseInt (digits n) = Some (int n)"
proof (cases "digits n")
  case Nil
  then show ?thesis by (simp add: digits_not_Nil)
next
  case (Cons c r)
  then have "c \<in> set (digits n)" by simp
  then have c: "space_prefix (c # r) = 0 \<and> c \<noteq> CHR ''-'' \<and> c \<noteq> CHR ''+''"
    using digits_decimal is_digit_in_10_cases by blast
  with Cons have "trimStart (digits n) = c # r" by (simp add: trimStart.simps)
  with c Cons show ?thesis
    using parse_unsigned_digits [of n] by (simp add: parseInt_def)
qed

lemma slice_digits: "1000 \<le> n \<Longrightarrow> slice_0_m3 (digits n) = digits (n div 1000)"
proof -
  assume n: "1000 \<le> n"
  have d: "n div 10 div 10 div 10 = n div 1000"
    by (simp add: div_mult2_eq [symmetric])
  from n have "10 \<le> n" "10 \<le> n div 10" "10 \<le> n div 10 div 10" by simp_all
  then have "digits n = digits (n div 10 div 10 div 10)
      @ [digit_char (n div 10 div 10 mod 10), digit_char (n div 10 mod 10), digit_char (n mod 10)]"
    by (simp add: digits_large)
  then show ?thesis
    by (simp add: slice_0_m3_def d)
qed

lemma clock_seconds_eq: "1000 \<le> now \<Longrightarrow> clock_seconds now = toString (now div 1000)"
proof -
  assume n: "1000 \<le> now"
  then have "1000 \<le> nat now" by simp
  then have "slice_0_m3 (digits (nat now)) = digits (nat now div 1000)"
    by (rule slice_digits)
  moreover have "nat now div 1000 = nat (now div 1000)"
    using n by (simp add: nat_div_distrib)
  ultimately show ?thesis
    using n by (simp add: clock_seconds_def toString_def)
qed

lemma parseInt_skips_no_break_space:
  "parseInt (CHR 0xC2 # CHR 0xA0 # CHR 0x20 # ''42:'') = Some 42"
  by (simp add: parseInt_def parse_unsigned_def parse_digits_def radix_value_def
      is_digit_in_def digit_value_def trimStart.simps space_prefix_def Let_def)

lemma parseInt_toString: "0 \<le> i \<Longrightarrow> parseInt (toString i) = Some i"
  by (simp add: toString_def parseInt_digits)

lemma currentTime_eq: "1000 \<le> now \<Longrightarrow> currentTime now = Some (now div 1000)"
  by (simp add: currentTime_def clock_seconds_eq parseInt_toString)

lemma split_colon_not_Nil: "split_colon s \<noteq> []"
  by (induction s) (auto split: list.splits)

lemma split_colon_field:
  "CHR '':'' \<notin> set a \<Longrightarrow> split_colon (a @ CHR '':'' # rest) = a # split_colon rest"
  by (induction a) auto

lemma digits_no_colon: "CHR '':'' \<notin> set (digits n)"
  using digits_decimal is_digit_in_10_cases by blast

text \<open>
  The time test on a challenge that \<open>requestMessageOwnershipVerification\<close> issued at
  clock \<open>t0\<close>: it passes exactly while fewer than 30000 seconds have elapsed.
\<close>

lemma withinWindow_issued:
  assumes "CHR '':'' \<notin> set address" and "1000 \<le> t0" and "1000 \<le> now"
  shows "withinWindow now (address @ '':'' @ clock_seconds t0 @ '':starRegistry'')
     \<longleftrightarrow> now div 1000 - t0 div 1000 < 30000"
proof -
  from assms(2) have t: "clock_seconds t0 = digits (nat (t0 div 1000))"
    by (simp add: clock_seconds_eq toString_def)
  have "split_colon (address @ CHR '':'' # digits (nat (t0 div 1000)) @ CHR '':'' # ''starRegistry'')
      = address # digits (nat (t0 div 1000)) # split_colon ''starRegistry''"
    using assms(1) by (simp only: split_colon_field digits_no_colon not_False_eq_True)
  then have "messageTimeStamp (address @ '':'' @ clock_seconds t0 @ '':starRegistry'')
      = Some (int (nat (t0 div 1000)))"
    by (simp add: messageTimeStamp_def t parseInt_digits)
  moreover from assms(2) have "int (nat (t0 div 1000)) = t0 div 1000"
    by simp
  ultimately show ?thesis
    using assms(3) by (simp add: withinWindow_def currentTime_eq FIVE_MINUTES_UTC_def)
qed

section \<open>Sealing and appending\<close>

lemma addBlock_not_Rejected: "fst (addBlock digest now b0 s) \<noteq> Rejected r"
  by (simp add: addBlock_def pushBlock_def Let_def)

lemma sealBlock_fields:
  "hash (sealBlock digest now b) = Some (digest (b\<lparr>time := JStr (clock_seconds now)\<rparr>))"
  "height (sealBlock digest now b) = height b"
  "body (sealBlock digest now b) = body b"
  "time (sealBlock digest now b) = JStr (clock_seconds now)"
  "previousBlockHash (sealBlock digest now b) = previousBlockHash b"
  by (simp_all add: sealBlock_def Let_def)

lemma sealBlock_hash:
  "hash b = None \<Longrightarrow>
     hash (sealBlock digest now b) = Some (digest ((sealBlock digest now b)\<lparr>hash := None\<rparr>))"
proof -
  assume "hash b = None"
  then have "b\<lparr>time := JStr (clock_seconds now), hash := None\<rparr> = b\<lparr>time := JStr (clock_seconds now)\<rparr>"
    by (cases b) simp
  then show ?thesis
    by (simp add: sealBlock_def Let_def)
qed

lemma addBlock_first:
  "this_height s = - 1 \<Longrightarrow>
   addBlock digest now b0 s =
     pushBlock (sealBlock digest now (b0\<lparr>height := 1\<rparr>)) (s\<lparr>this_height := 1\<rparr>)"
  by (simp add: addBlock_def)

lemma addBlock_next:
  "this_height s \<noteq> - 1 \<Longrightarrow> chain s \<noteq> [] \<Longrightarrow>
   addBlock digest now b0 s =
     pushBlock (sealBlock digest now
        (b0\<lparr>height := this_height s + 1, previousBlockHash := hash (last (chain s))\<rparr>))
       (s\<lparr>this_height := this_height s + 1\<rparr>)"
  by (simp add: addBlock_def Let_def)

lemma addBlock_stuck:
  "this_height s \<noteq> - 1 \<Longrightarrow> chain s = [] \<Longrightarrow>
   addBlock digest now b0 s = (Pending, s\<lparr>this_height := this_height s + 1\<rparr>)"
  by (simp add: addBlock_def Let_def)

lemma built_height:
  "built digest s \<Longrightarrow> this_height s = (if chain s = [] then - 1 else int (length (chain s)))"
proof (induction rule: built.induct)
  case built_empty
  show ?case by simp
next
  case (built_add s now d)
  show ?case
  proof (cases "chain s = []")
    case True
    with built_add.IH have "this_height s = - 1" by simp
    then show ?thesis
      by (simp add: addBlock_first pushBlock_def True)
  next
    case False
    with built_add.IH have h: "this_height s = int (length (chain s))" by simp
    then have "this_height s \<noteq> - 1" by simp
    with False h show ?thesis
      by (simp add: addBlock_next pushBlock_def)
  qed
qed

lemma built_addBlock:
  assumes "built digest s"
  shows "addBlock digest now (Block d) s =
     (Resolved (nextBlock digest now d (chain s)),
      \<lparr>chain = chain s @ [nextBlock digest now d (chain s)],
       this_height = int (length (chain s)) + 1\<rparr>)"
proof (cases "chain s = []")
  case True
  with built_height [OF assms] have "this_height s = - 1" by simp
  with True show ?thesis
    by (simp add: addBlock_first pushBlock_def nextBlock_def Block_def)
next
  case False
  with built_height [OF assms] have h: "this_height s = int (length (chain s))" by simp
  then have "this_height s \<noteq> - 1" by simp
  with False h show ?thesis
    by (simp add: addBlock_next pushBlock_def nextBlock_def Block_def)
qed

lemma addBlock_empty:
  "addBlock digest now (Block d) \<lparr>chain = [], this_height = - 1\<rparr>
     = (Resolved (nextBlock digest now d []), \<lparr>chain = [nextBlock digest now d []], this_height = 1\<rparr>)"
  using built_addBlock [OF built_empty, of digest now d] by simp

lemma nextBlock_fields:
  "height (nextBlock digest now d ch) = int (length ch) + 1"
  "body (nextBlock digest now d ch) = encode d"
  "time (nextBlock digest now d ch) = JStr (clock_seconds now)"
  "previousBlockHash (nextBlock digest now d ch) = (if ch = [] then None else hash (last ch))"
  "hash (nextBlock digest now d ch)
     = Some (digest ((nextBlock digest now d ch)\<lparr>hash := None\<rparr>))"
  by (simp_all add: nextBlock_def sealBlock_def Block_def Let_def)

lemma built_chain:
  "built digest s \<Longrightarrow> i < length (chain s) \<Longrightarrow>
     height (chain s ! i) = int i + 1
     \<and> previousBlockHash (chain s ! i) = (if i = 0 then None else hash (chain s ! (i - 1)))
     \<and> hash (chain s ! i) = Some (digest ((chain s ! i)\<lparr>hash := None\<rparr>))
     \<and> (\<exists>d. body (chain s ! i) = encode d)
     \<and> (\<exists>now. time (chain s ! i) = JStr (clock_seconds now))"
proof (induction arbitrary: i rule: built.induct)
  case built_empty
  then show ?case by simp
next
  case (built_add s now d)
  let ?b = "nextBlock digest now d (chain s)"
  have ch: "chain (snd (addBlock digest now (Block d) s)) = chain s @ [?b]"
    by (simp add: built_addBlock [OF built_add.hyps])
  show ?case
  proof (cases "i < length (chain s)")
    case True
    then have "i - 1 < length (chain s)" by simp
    with True built_add.IH [OF True] show ?thesis
      by (simp add: ch nth_append)
  next
    case False
    with built_add.prems have i: "i = length (chain s)"
      by (simp add: ch)
    show ?thesis
    proof (cases "chain s = []")
      case True
      with i show ?thesis
        using nextBlock_fields [of digest now d "chain s"] by (auto simp: ch)
    next
      case False
      then have "last (chain s) = chain s ! (i - 1)" "i - 1 < length (chain s)" "i \<noteq> 0"
        using i by (simp_all add: last_conv_nth)
      with False i show ?thesis
        using nextBlock_fields [of digest now d "chain s"] by (auto simp: ch nth_append)
    qed
  qed
qed

lemma newBlockchain_eq:
  "newBlockchain digest now =
     \<lparr>chain = [nextBlock digest now genesisData []], this_height = 1\<rparr>"
  by (simp add: newBlockchain_def initializeChain_def addBlock_def pushBlock_def nextBlock_def
      Block_def)

lemma built_newBlockchain: "built digest (newBlockchain digest now)"
  unfolding newBlockchain_def initializeChain_def
  using built_add [OF built_empty, of digest now genesisData] by simp

section \<open>Submitting a claim\<close>

lemma currentTime_example: "currentTime 1638090352000 = Some 1638090352"
  by (simp add: currentTime_eq)

lemma messageTimeStamp_example:
  "messageTimeStamp ''1HZwkjkeaoZfTSaJxDw6aKkxp45agDiEzN:1638090052:starRegistry''
     = Some 1638090052"
  by (simp add: messageTimeStamp_def parseInt_def parse_unsigned_def parse_digits_def
      radix_value_def is_digit_in_def digit_value_def trimStart.simps space_prefix_def Let_def)

lemma withinWindow_example:
  "withinWindow 1638090352000 ''1HZwkjkeaoZfTSaJxDw6aKkxp45agDiEzN:1638090052:starRegistry''"
  by (simp add: withinWindow_def currentTime_example messageTimeStamp_example
      FIVE_MINUTES_UTC_def)

lemma not_withinWindow_example:
  "\<not> withinWindow 1638120052000 ''1HZwkjkeaoZfTSaJxDw6aKkxp45agDiEzN:1638090052:starRegistry''"
  by (simp add: withinWindow_def currentTime_eq messageTimeStamp_example FIVE_MINUTES_UTC_def)

text \<open>
  C1. The claim: a submission whose challenge is at least 300 seconds old is rejected
  and appends nothing. The code compares the elapsed seconds with
  \<open>FIVE_MINUTES_UTC = 30000\<close>: with the clock at 1638090352 s and a challenge stamped
  1638090052 s, exactly 300 seconds earlier, a submission whose signature verifies is
  accepted, and the chain grows from one block to two.
\<close>

theorem submitStar_accepts_after_300_seconds:
  "currentTime 1638090352000 = Some 1638090352
   \<and> messageTimeStamp ''1HZwkjkeaoZfTSaJxDw6aKkxp45agDiEzN:1638090052:starRegistry''
       = Some 1638090052
   \<and> submitStar digest (\<lambda>m a sg. Some True) 1638090352000
        ''1HZwkjkeaoZfTSaJxDw6aKkxp45agDiEzN''
        ''1HZwkjkeaoZfTSaJxDw6aKkxp45agDiEzN:1638090052:starRegistry'' ''sig'' ''star''
        (newBlockchain digest 1638090052000)
      = (Resolved (nextBlock digest 1638090352000
                     (Claim ''1HZwkjkeaoZfTSaJxDw6aKkxp45agDiEzN'' ''star'')
                     [nextBlock digest 1638090052000 genesisData []]),
         \<lparr>chain = [nextBlock digest 1638090052000 genesisData [],
                    nextBlock digest 1638090352000
                      (Claim ''1HZwkjkeaoZfTSaJxDw6aKkxp45agDiEzN'' ''star'')
                      [nextBlock digest 1638090052000 genesisData []]],
          this_height = 2\<rparr>)"
proof -
  have "submitStar digest (\<lambda>m a sg. Some True) 1638090352000
        ''1HZwkjkeaoZfTSaJxDw6aKkxp45agDiEzN''
        ''1HZwkjkeaoZfTSaJxDw6aKkxp45agDiEzN:1638090052:starRegistry'' ''sig'' ''star''
        (newBlockchain digest 1638090052000)
      = addBlock digest 1638090352000
          (Block (Claim ''1HZwkjkeaoZfTSaJxDw6aKkxp45agDiEzN'' ''star''))
          (newBlockchain digest 1638090052000)"
    unfolding submitStar_def using withinWindow_example by simp
  also have "\<dots> = (Resolved (nextBlock digest 1638090352000
                     (Claim ''1HZwkjkeaoZfTSaJxDw6aKkxp45agDiEzN'' ''star'')
                     (chain (newBlockchain digest 1638090052000))),
         \<lparr>chain = chain (newBlockchain digest 1638090052000)
                   @ [nextBlock digest 1638090352000
                      (Claim ''1HZwkjkeaoZfTSaJxDw6aKkxp45agDiEzN'' ''star'')
                      (chain (newBlockchain digest 1638090052000))],
          this_height = int (length (chain (newBlockchain digest 1638090052000))) + 1\<rparr>)"
    by (rule built_addBlock [OF built_newBlockchain])
  finally show ?thesis
    by (simp add: newBlockchain_eq currentTime_example messageTimeStamp_example)
qed

text \<open>
  C4. Whenever \<open>submitStar\<close> rejects, the state it leaves is the state it found (no
  block appended, cached height unchanged) and the reason is \<open>null\<close>; an expired
  challenge and a signature that does not verify give the very same result,
  \<open>rej(null)\<close> on the unchanged state.
\<close>

theorem submitStar_rejection:
  "(fst (submitStar digest verify now address message signature st s) = Rejected r
      \<longrightarrow> snd (submitStar digest verify now address message signature st s) = s \<and> r = None)
   \<and> (\<not> withinWindow now message
      \<longrightarrow> submitStar digest verify now address message signature st s = (Rejected None, s))
   \<and> (withinWindow now message \<and> verify message address signature = Some False
      \<longrightarrow> submitStar digest verify now address message signature st s = (Rejected None, s))"
  by (auto simp: submitStar_def addBlock_not_Rejected split: option.splits bool.splits)

theorem submitStar_rejection_witness:
  "submitStar fieldsText (\<lambda>m a sg. Some True) 1638120052000
      ''1HZwkjkeaoZfTSaJxDw6aKkxp45agDiEzN''
      ''1HZwkjkeaoZfTSaJxDw6aKkxp45agDiEzN:1638090052:starRegistry'' ''sig'' ''star''
      (newBlockchain fieldsText 1638090052000)
     = (Rejected None, newBlockchain fieldsText 1638090052000)
   \<and> submitStar fieldsText (\<lambda>m a sg. Some False) 1638090352000
      ''1HZwkjkeaoZfTSaJxDw6aKkxp45agDiEzN''
      ''1HZwkjkeaoZfTSaJxDw6aKkxp45agDiEzN:1638090052:starRegistry'' ''sig'' ''star''
      (newBlockchain fieldsText 1638090052000)
     = (Rejected None, newBlockchain fieldsText 1638090052000)"
  using
    submitStar_rejection [of fieldsText "\<lambda>m a sg. Some True" 1638120052000
      "''1HZwkjkeaoZfTSaJxDw6aKkxp45agDiEzN''"
      "''1HZwkjkeaoZfTSaJxDw6aKkxp45agDiEzN:1638090052:starRegistry''" "''sig''" "''star''"
      "newBlockchain fieldsText 1638090052000" None]
    submitStar_rejection [of fieldsText "\<lambda>m a sg. Some False" 1638090352000
      "''1HZwkjkeaoZfTSaJxDw6aKkxp45agDiEzN''"
      "''1HZwkjkeaoZfTSaJxDw6aKkxp45agDiEzN:1638090052:starRegistry''" "''sig''" "''star''"
      "newBlockchain fieldsText 1638090052000" None]
    withinWindow_example not_withinWindow_example
  by blast

section \<open>The scenario ledger\<close>

lemma submitStar_example:
  "submitStar digest (\<lambda>m a sg. Some True) 1638090352000
        ''1HZwkjkeaoZfTSaJxDw6aKkxp45agDiEzN''
        ''1HZwkjkeaoZfTSaJxDw6aKkxp45agDiEzN:1638090052:starRegistry'' ''sig'' ''star'' s
      = addBlock digest 1638090352000
          (Block (Claim ''1HZwkjkeaoZfTSaJxDw6aKkxp45agDiEzN'' ''star'')) s"
  unfolding submitStar_def using withinWindow_example by simp

lemma built_scenarioLedger: "built fieldsText scenarioLedger"
  unfolding scenarioLedger_def submitStar_example
  by (rule built_add [OF built_newBlockchain])

lemma scenarioLedger_eq:
  "scenarioLedger =
     \<lparr>chain = [nextBlock fieldsText 1638090052000 genesisData [],
                nextBlock fieldsText 1638090352000
                  (Claim ''1HZwkjkeaoZfTSaJxDw6aKkxp45agDiEzN'' ''star'')
                  [nextBlock fieldsText 1638090052000 genesisData []]],
      this_height = 2\<rparr>"
  unfolding scenarioLedger_def submitStar_example
  by (simp add: built_addBlock [OF built_newBlockchain]) (simp add: newBlockchain_eq)

section \<open>The link invariant\<close>

text \<open>
  C2. In a chain built by \<open>_addBlock\<close> alone (from the empty object, each call with a
  newly constructed Block), every Record at an index \<open>i > 0\<close> has the hash of the
  Record before it as \<open>previousBlockHash\<close> and its height plus 1 as height, and the
  Record at index 0 is the only one with \<open>previousBlockHash\<close> \<open>null\<close> and height 1.
\<close>

theorem built_chain_linked:
  "built digest s \<Longrightarrow>
     (\<forall>i. 0 < i \<and> i < length (chain s) \<longrightarrow>
        previousBlockHash (chain s ! i) = hash (chain s ! (i - 1))
        \<and> height (chain s ! i) = height (chain s ! (i - 1)) + 1)
     \<and> (\<forall>i < length (chain s).
          (previousBlockHash (chain s ! i) = None \<and> height (chain s ! i) = 1) \<longleftrightarrow> i = 0)"
proof (intro conjI allI impI)
  fix i
  assume b: "built digest s" and i: "0 < i \<and> i < length (chain s)"
  then have "i - 1 < length (chain s)" by arith
  from built_chain [OF b this] built_chain [OF b conjunct2 [OF i]] i
  show "previousBlockHash (chain s ! i) = hash (chain s ! (i - 1))"
    and "height (chain s ! i) = height (chain s ! (i - 1)) + 1"
    by simp_all
next
  fix i
  assume b: "built digest s" and i: "i < length (chain s)"
  from built_chain [OF b i]
  show "(previousBlockHash (chain s ! i) = None \<and> height (chain s ! i) = 1) \<longleftrightarrow> i = 0"
    by auto
qed

theorem built_chain_linked_witness:
  "built fieldsText scenarioLedger
   \<and> length (chain scenarioLedger) = 2
   \<and> previousBlockHash (chain scenarioLedger ! 1) = hash (chain scenarioLedger ! 0)
   \<and> height (chain scenarioLedger ! 1) = height (chain scenarioLedger ! 0) + 1
   \<and> previousBlockHash (chain scenarioLedger ! 0) = None
   \<and> height (chain scenarioLedger ! 0) = 1
   \<and> height (chain scenarioLedger ! 1) \<noteq> 1"
proof -
  have len: "length (chain scenarioLedger) = 2"
    by (simp add: scenarioLedger_eq)
  note link = built_chain_linked [OF built_scenarioLedger, THEN conjunct1, rule_format, of 1]
  note gen = built_chain_linked [OF built_scenarioLedger, THEN conjunct2, rule_format]
  from link gen [of 0] gen [of 1] len built_scenarioLedger show ?thesis
    by simp
qed

section \<open>The hash of a sealed Record\<close>

lemma addBlock_Resolved_hash:
  assumes "hash b0 = None" and "addBlock digest now b0 s = (Resolved b, s')"
  shows "hash b = Some (digest (b\<lparr>hash := None\<rparr>))"
    and "chain s' = chain s @ [b]"
proof -
  from assms obtain b1 where "b = sealBlock digest now b1" and "hash b1 = None"
    by (auto simp: addBlock_def pushBlock_def Let_def split: if_splits)
  then show "hash b = Some (digest (b\<lparr>hash := None\<rparr>))"
    by (simp add: sealBlock_hash)
  show "chain s' = chain s @ [b]"
    using assms(2) by (auto simp: addBlock_def pushBlock_def Let_def split: if_splits)
qed

lemma same_fields_same_block:
  "height b1 = height b2 \<Longrightarrow> body b1 = body b2 \<Longrightarrow> time b1 = time b2 \<Longrightarrow>
   previousBlockHash b1 = previousBlockHash b2 \<Longrightarrow>
   b1\<lparr>hash := None\<rparr> = (b2\<lparr>hash := None\<rparr> :: block)"
  by (cases b1, cases b2) simp

lemma built_hash:
  "built digest s \<Longrightarrow> b \<in> set (chain s) \<Longrightarrow> hash b = Some (recomputeHash digest b)"
proof -
  assume b: "built digest s" and "b \<in> set (chain s)"
  then obtain i where i: "i < length (chain s)" and "b = chain s ! i"
    by (auto simp: in_set_conv_nth)
  with built_chain [OF b i] show ?thesis
    by (simp add: recomputeHash_def)
qed

text \<open>
  C5. The hash that \<open>_addBlock\<close> stores is the digest of the Record with all its
  other fields as they are when it is sealed and with the hash field itself empty
  (\<open>null\<close>), so no hash value enters the digest. This holds for the block a call
  returns and for every Record of a chain built by such calls. The digest is a function
  of those fields: two sealed Records that agree on height, payload, time and previous
  hash have the same hash.
\<close>

theorem sealed_hash_digest:
  "(addBlock digest now (Block d) s = (Resolved b, s')
      \<longrightarrow> hash b = Some (digest (b\<lparr>hash := None\<rparr>)) \<and> last (chain s') = b)
   \<and> (built digest s \<longrightarrow> (\<forall>b \<in> set (chain s). hash b = Some (digest (b\<lparr>hash := None\<rparr>))))
   \<and> (built digest s1 \<and> built digest s2 \<and> b1 \<in> set (chain s1) \<and> b2 \<in> set (chain s2)
        \<and> height b1 = height b2 \<and> body b1 = body b2 \<and> time b1 = time b2
        \<and> previousBlockHash b1 = previousBlockHash b2
      \<longrightarrow> hash b1 = hash b2)"
proof -
  have seal: "hash b = Some (digest (b\<lparr>hash := None\<rparr>)) \<and> last (chain s') = b"
    if a: "addBlock digest now (Block d) s = (Resolved b, s')"
  proof -
    have "hash (Block d) = None" by (simp add: Block_def)
    from addBlock_Resolved_hash [OF this a] show ?thesis by simp
  qed
  have stored: "hash x = Some (digest (x\<lparr>hash := None\<rparr>))"
    if "built digest s" "x \<in> set (chain s)" for x
    using built_hash [OF that] by (simp add: recomputeHash_def)
  have same: "hash b1 = hash b2"
    if a: "built digest s1 \<and> built digest s2 \<and> b1 \<in> set (chain s1) \<and> b2 \<in> set (chain s2)
        \<and> height b1 = height b2 \<and> body b1 = body b2 \<and> time b1 = time b2
        \<and> previousBlockHash b1 = previousBlockHash b2"
  proof -
    from a have "b1\<lparr>hash := None\<rparr> = b2\<lparr>hash := None\<rparr>"
      using same_fields_same_block [of b1 b2] by blast
    moreover from a have "hash b1 = Some (recomputeHash digest b1)"
        "hash b2 = Some (recomputeHash digest b2)"
      using built_hash [of digest s1 b1] built_hash [of digest s2 b2] by blast+
    ultimately show ?thesis
      by (simp add: recomputeHash_def)
  qed
  have c1: "addBlock digest now (Block d) s = (Resolved b, s')
      \<longrightarrow> hash b = Some (digest (b\<lparr>hash := None\<rparr>)) \<and> last (chain s') = b"
    using seal by (rule impI)
  have c2: "built digest s \<longrightarrow> (\<forall>b \<in> set (chain s). hash b = Some (digest (b\<lparr>hash := None\<rparr>)))"
    using stored by (intro impI ballI)
  have c3: "built digest s1 \<and> built digest s2 \<and> b1 \<in> set (chain s1) \<and> b2 \<in> set (chain s2)
        \<and> height b1 = height b2 \<and> body b1 = body b2 \<and> time b1 = time b2
        \<and> previousBlockHash b1 = previousBlockHash b2
      \<longrightarrow> hash b1 = hash b2"
    using same by (rule impI)
  show ?thesis by (intro conjI c1 c2 c3)
qed

theorem sealed_hash_digest_witness:
  "hash (nextBlock fieldsText 1638090052000 genesisData [])
     = Some (fieldsText ((nextBlock fieldsText 1638090052000 genesisData [])\<lparr>hash := None\<rparr>))
   \<and> hash (chain scenarioLedger ! 1) = Some (fieldsText ((chain scenarioLedger ! 1)\<lparr>hash := None\<rparr>))
   \<and> hash (nextBlock fieldsText 1638090052000 genesisData [])
     = hash (nextBlock fieldsText 1638090052999 genesisData [])"
proof -
  note a = sealed_hash_digest [where digest = fieldsText and now = 1638090052000
      and d = genesisData and s = "\<lparr>chain = [], this_height = - 1\<rparr>"
      and b = "nextBlock fieldsText 1638090052000 genesisData []"
      and s' = "newBlockchain fieldsText 1638090052000", THEN conjunct1]
  note b = sealed_hash_digest [where digest = fieldsText and s = scenarioLedger,
      THEN conjunct2, THEN conjunct1, rule_format, OF built_scenarioLedger,
      of "chain scenarioLedger ! 1"]
  note c = sealed_hash_digest [where digest = fieldsText
      and ?s1.0 = "newBlockchain fieldsText 1638090052000"
      and ?s2.0 = "newBlockchain fieldsText 1638090052999"
      and ?b1.0 = "nextBlock fieldsText 1638090052000 genesisData []"
      and ?b2.0 = "nextBlock fieldsText 1638090052999 genesisData []",
      THEN conjunct2, THEN conjunct2]
  have t: "clock_seconds 1638090052000 = clock_seconds 1638090052999"
    by (simp add: clock_seconds_eq)
  have 1: "hash (nextBlock fieldsText 1638090052000 genesisData [])
     = Some (fieldsText ((nextBlock fieldsText 1638090052000 genesisData [])\<lparr>hash := None\<rparr>))"
    using a by (simp add: addBlock_empty newBlockchain_eq)
  have 2: "hash (chain scenarioLedger ! 1)
     = Some (fieldsText ((chain scenarioLedger ! 1)\<lparr>hash := None\<rparr>))"
    using b by (simp add: scenarioLedger_eq)
  have 3: "hash (nextBlock fieldsText 1638090052000 genesisData [])
     = hash (nextBlock fieldsText 1638090052999 genesisData [])"
  proof -
    have "nextBlock fieldsText 1638090052000 genesisData []
        \<in> set (chain (newBlockchain fieldsText 1638090052000))"
      and "nextBlock fieldsText 1638090052999 genesisData []
        \<in> set (chain (newBlockchain fieldsText 1638090052999))"
      by (simp_all add: newBlockchain_eq)
    moreover have "height (nextBlock fieldsText 1638090052000 genesisData [])
        = height (nextBlock fieldsText 1638090052999 genesisData [])"
      and "body (nextBlock fieldsText 1638090052000 genesisData [])
        = body (nextBlock fieldsText 1638090052999 genesisData [])"
      and "time (nextBlock fieldsText 1638090052000 genesisData [])
        = time (nextBlock fieldsText 1638090052999 genesisData [])"
      and "previousBlockHash (nextBlock fieldsText 1638090052000 genesisData [])
        = previousBlockHash (nextBlock fieldsText 1638090052999 genesisData [])"
      by (simp_all add: nextBlock_fields t)
    ultimately show ?thesis
      using c built_newBlockchain [of fieldsText 1638090052000]
        built_newBlockchain [of fieldsText 1638090052999]
      by blast
  qed
  show ?thesis by (intro conjI 1 2 3)
qed

section \<open>The time of a sealed Record\<close>

lemma clock_seconds_example: "clock_seconds 1638090052123 = ''1638090052''"
  by (simp add: clock_seconds_eq toString_def digits.simps digit_char_def char_of_def bit_iff_odd)

text \<open>
  C7, as stated, fails on the code: the time field of a sealed Record is not a number.
  With the clock at 1638090052123 ms the genesis Record's time is the string
  \<open>"1638090052"\<close>, not the integer 1638090052.
\<close>

theorem sealed_time_is_a_string:
  "time (last (chain (newBlockchain fieldsText 1638090052123))) = JStr ''1638090052''
   \<and> time (last (chain (newBlockchain fieldsText 1638090052123))) \<noteq> JNum 1638090052"
  by (simp add: newBlockchain_eq nextBlock_fields clock_seconds_example)

lemma addBlock_Resolved_time:
  "addBlock digest now b0 s = (Resolved b, s') \<Longrightarrow> time b = JStr (clock_seconds now)"
  by (auto simp: addBlock_def pushBlock_def Let_def sealBlock_fields split: if_splits)

text \<open>
  C7, amended. The time field of every sealed Record is a string assigned at sealing
  time: the decimal text of the millisecond clock without its last three characters.
  For a clock of at least 1000 ms that is the decimal numeral of the whole seconds
  since the epoch, and \<open>parseInt\<close> reads that integer back from it.
\<close>

theorem sealed_time_seconds_text:
  "(addBlock digest now b0 s = (Resolved b, s')
      \<longrightarrow> time b = JStr (clock_seconds now)
          \<and> (1000 \<le> now \<longrightarrow> clock_seconds now = toString (now div 1000)
                \<and> parseInt (clock_seconds now) = Some (now div 1000)))
   \<and> (built digest s \<longrightarrow> (\<forall>b \<in> set (chain s). \<exists>t. time b = JStr (clock_seconds t)))"
proof -
  have t: "time b = JStr (clock_seconds now)" if "addBlock digest now b0 s = (Resolved b, s')"
    using that by (rule addBlock_Resolved_time)
  have sec: "clock_seconds now = toString (now div 1000)
      \<and> parseInt (clock_seconds now) = Some (now div 1000)" if "1000 \<le> now"
    using that by (simp add: clock_seconds_eq parseInt_toString)
  have stored: "\<exists>t. time x = JStr (clock_seconds t)"
    if b: "built digest s" and x: "x \<in> set (chain s)" for x
  proof -
    from x obtain i where i: "i < length (chain s)" and "x = chain s ! i"
      by (auto simp: in_set_conv_nth)
    with built_chain [OF b i] show ?thesis by simp
  qed
  have c1: "addBlock digest now b0 s = (Resolved b, s')
      \<longrightarrow> time b = JStr (clock_seconds now)
          \<and> (1000 \<le> now \<longrightarrow> clock_seconds now = toString (now div 1000)
                \<and> parseInt (clock_seconds now) = Some (now div 1000))"
    using t sec by blast
  have c2: "built digest s \<longrightarrow> (\<forall>b \<in> set (chain s). \<exists>t. time b = JStr (clock_seconds t))"
    using stored by (intro impI ballI)
  show ?thesis by (intro conjI c1 c2)
qed

theorem sealed_time_seconds_text_witness:
  "time (nextBlock fieldsText 1638090052123 genesisData []) = JStr (clock_seconds 1638090052123)
   \<and> clock_seconds 1638090052123 = toString 1638090052
   \<and> parseInt (clock_seconds 1638090052123) = Some 1638090052
   \<and> (\<exists>t. time (chain scenarioLedger ! 1) = JStr (clock_seconds t))"
proof -
  note a = sealed_time_seconds_text [where digest = fieldsText and now = 1638090052123
      and ?b0.0 = "Block genesisData" and s = "\<lparr>chain = [], this_height = - 1\<rparr>"
      and b = "nextBlock fieldsText 1638090052123 genesisData []"
      and s' = "newBlockchain fieldsText 1638090052123", THEN conjunct1]
  note b = sealed_time_seconds_text [where digest = fieldsText and s = scenarioLedger,
      THEN conjunct2, rule_format, OF built_scenarioLedger, of "chain scenarioLedger ! 1"]
  have add: "addBlock fieldsText 1638090052123 (Block genesisData) \<lparr>chain = [], this_height = - 1\<rparr>
      = (Resolved (nextBlock fieldsText 1638090052123 genesisData []),
         newBlockchain fieldsText 1638090052123)"
    by (simp add: addBlock_empty newBlockchain_eq)
  have ge: "(1000::int) \<le> 1638090052123" by simp
  have dv: "(1638090052123::int) div 1000 = 1638090052" by simp
  from a add ge
  have "time (nextBlock fieldsText 1638090052123 genesisData []) = JStr (clock_seconds 1638090052123)
   \<and> clock_seconds 1638090052123 = toString (1638090052123 div 1000)
   \<and> parseInt (clock_seconds 1638090052123) = Some (1638090052123 div 1000)"
    by blast
  then have 1: "time (nextBlock fieldsText 1638090052123 genesisData []) = JStr (clock_seconds 1638090052123)
   \<and> clock_seconds 1638090052123 = toString 1638090052
   \<and> parseInt (clock_seconds 1638090052123) = Some 1638090052"
    unfolding dv .
  have 2: "\<exists>t. time (chain scenarioLedger ! 1) = JStr (clock_seconds t)"
    using b by (simp add: scenarioLedger_eq)
  from 1 2 show ?thesis by blast
qed

section \<open>Initialization\<close>

lemma initializeChain_noop: "this_height s \<noteq> - 1 \<Longrightarrow> initializeChain digest now s = s"
  by (simp add: initializeChain_def)

text \<open>
  C8. A newly constructed ledger holds exactly one Record, whose payload decodes to the
  genesis marker, with height 1 and \<open>previousBlockHash\<close> \<open>null\<close>; its cached height
  is 1. \<open>initializeChain\<close> on it changes nothing, nor on any built state that has a
  chain, and calling it twice from any state is the same as calling it once.
\<close>

theorem fresh_ledger_genesis:
  "chain (newBlockchain digest now) = [nextBlock digest now genesisData []]
   \<and> getBData (nextBlock digest now genesisData []) = Some (Marker ''Genesis Block'')
   \<and> height (nextBlock digest now genesisData []) = 1
   \<and> previousBlockHash (nextBlock digest now genesisData []) = None
   \<and> this_height (newBlockchain digest now) = 1
   \<and> initializeChain digest now' (newBlockchain digest now) = newBlockchain digest now
   \<and> (built digest s \<and> chain s \<noteq> [] \<longrightarrow> initializeChain digest now' s = s)
   \<and> initializeChain digest now' (initializeChain digest now s) = initializeChain digest now s"
proof -
  have idem: "initializeChain digest now' (initializeChain digest now s)
      = initializeChain digest now s"
  proof (cases "this_height s = - 1")
    case True
    then have "this_height (initializeChain digest now s) = 1"
      by (simp add: initializeChain_def addBlock_first pushBlock_def)
    then show ?thesis by (simp add: initializeChain_noop)
  next
    case False
    then show ?thesis by (simp add: initializeChain_noop)
  qed
  have exists: "initializeChain digest now' s = s" if "built digest s \<and> chain s \<noteq> []"
  proof -
    from that have "this_height s \<noteq> - 1"
      using built_height [of digest s] by simp
    then show ?thesis by (rule initializeChain_noop)
  qed
  have fresh: "chain (newBlockchain digest now) = [nextBlock digest now genesisData []]"
    "getBData (nextBlock digest now genesisData []) = Some (Marker ''Genesis Block'')"
    "height (nextBlock digest now genesisData []) = 1"
    "previousBlockHash (nextBlock digest now genesisData []) = None"
    "this_height (newBlockchain digest now) = 1"
    "initializeChain digest now' (newBlockchain digest now) = newBlockchain digest now"
    by (simp_all add: newBlockchain_eq nextBlock_fields getBData_def encode_def genesisData_def
        initializeChain_noop)
  have c: "built digest s \<and> chain s \<noteq> [] \<longrightarrow> initializeChain digest now' s = s"
    using exists by (rule impI)
  show ?thesis by (intro conjI fresh c idem)
qed


theorem fresh_ledger_genesis_witness:
  "built fieldsText scenarioLedger \<and> chain scenarioLedger \<noteq> []
   \<and> initializeChain fieldsText 1638090400000 scenarioLedger = scenarioLedger"
proof -
  have "chain scenarioLedger \<noteq> []"
    by (simp add: scenarioLedger_eq)
  with built_scenarioLedger
    fresh_ledger_genesis [where digest = fieldsText and s = scenarioLedger
      and now' = 1638090400000, THEN conjunct2, THEN conjunct2, THEN conjunct2, THEN conjunct2,
      THEN conjunct2, THEN conjunct2, THEN conjunct1]
  show ?thesis by simp
qed

section \<open>Lookups\<close>

text \<open>
  C9. \<open>getBlockByHash\<close> and \<open>getBlockByHeight\<close> always resolve (they never reject):
  with \<open>null\<close> exactly when no Record of the chain has the hash (the height) asked
  for, and otherwise with the Record at the least index that has it. The key of the
  second is the \<open>height\<close> field, not the position in the array.
\<close>

theorem lookup_first_match:
  "(\<exists>r. getBlockByHash s h = Resolved r
        \<and> (r = None \<longleftrightarrow> (\<forall>b \<in> set (chain s). hash b \<noteq> h))
        \<and> (\<forall>b. r = Some b \<longleftrightarrow>
              (\<exists>i < length (chain s). chain s ! i = b \<and> hash b = h
                 \<and> (\<forall>j < i. hash (chain s ! j) \<noteq> h))))
   \<and> (\<exists>r. getBlockByHeight s n = Resolved r
        \<and> (r = None \<longleftrightarrow> (\<forall>b \<in> set (chain s). height b \<noteq> n))
        \<and> (\<forall>b. r = Some b \<longleftrightarrow>
              (\<exists>i < length (chain s). chain s ! i = b \<and> height b = n
                 \<and> (\<forall>j < i. height (chain s ! j) \<noteq> n))))"
proof -
  have f: "(find P xs = None \<longleftrightarrow> (\<forall>b \<in> set xs. \<not> P b))
      \<and> (\<forall>b. find P xs = Some b \<longleftrightarrow>
            (\<exists>i < length xs. xs ! i = b \<and> P b \<and> (\<forall>j < i. \<not> P (xs ! j))))"
    for P :: "block \<Rightarrow> bool" and xs
    by (auto simp: find_None_iff find_Some_iff)
  show ?thesis
    unfolding getBlockByHash_def getBlockByHeight_def
    using f [of "\<lambda>b. hash b = h" "chain s"] f [of "\<lambda>b. height b = n" "chain s"]
    by simp
qed

theorem lookup_first_match_witness:
  "getBlockByHeight scenarioLedger 2 = Resolved (Some (chain scenarioLedger ! 1))
   \<and> getBlockByHeight scenarioLedger 0 = Resolved None
   \<and> getBlockByHash scenarioLedger (hash (chain scenarioLedger ! 0))
       = Resolved (Some (chain scenarioLedger ! 0))
   \<and> getBlockByHash scenarioLedger None = Resolved None"
proof -
  have len: "length (chain scenarioLedger) = 2"
    by (simp add: scenarioLedger_eq)
  have h: "height (chain scenarioLedger ! 0) = 1" "height (chain scenarioLedger ! 1) = 2"
    "hash (chain scenarioLedger ! 0) \<noteq> None" "hash (chain scenarioLedger ! 1) \<noteq> None"
    by (simp_all add: scenarioLedger_eq nextBlock_fields)
  have set: "set (chain scenarioLedger) = {chain scenarioLedger ! 0, chain scenarioLedger ! 1}"
    by (simp add: scenarioLedger_eq)
  from lookup_first_match [of scenarioLedger None 2]
  obtain r where r: "getBlockByHeight scenarioLedger 2 = Resolved r"
    and rs: "\<forall>b. r = Some b \<longleftrightarrow>
              (\<exists>i < length (chain scenarioLedger). chain scenarioLedger ! i = b \<and> height b = 2
                 \<and> (\<forall>j < i. height (chain scenarioLedger ! j) \<noteq> 2))"
    by blast
  have "\<exists>i < length (chain scenarioLedger).
           chain scenarioLedger ! i = chain scenarioLedger ! 1
           \<and> height (chain scenarioLedger ! 1) = 2
           \<and> (\<forall>j < i. height (chain scenarioLedger ! j) \<noteq> 2)"
    using len h by (intro exI [of _ 1]) (simp add: less_Suc_eq)
  with rs have "r = Some (chain scenarioLedger ! 1)" by blast
  with r have 1: "getBlockByHeight scenarioLedger 2 = Resolved (Some (chain scenarioLedger ! 1))"
    by simp
  from lookup_first_match [of scenarioLedger None 0] set h
  have 2: "getBlockByHeight scenarioLedger 0 = Resolved None"
    by auto
  from lookup_first_match [of scenarioLedger None 0] set h
  have 4: "getBlockByHash scenarioLedger None = Resolved None"
    by auto
  from lookup_first_match [of scenarioLedger "hash (chain scenarioLedger ! 0)" 0]
  obtain q where q: "getBlockByHash scenarioLedger (hash (chain scenarioLedger ! 0)) = Resolved q"
    and qs: "\<forall>b. q = Some b \<longleftrightarrow>
              (\<exists>i < length (chain scenarioLedger). chain scenarioLedger ! i = b
                 \<and> hash b = hash (chain scenarioLedger ! 0)
                 \<and> (\<forall>j < i. hash (chain scenarioLedger ! j) \<noteq> hash (chain scenarioLedger ! 0)))"
    by blast
  have "\<exists>i < length (chain scenarioLedger).
           chain scenarioLedger ! i = chain scenarioLedger ! 0
           \<and> hash (chain scenarioLedger ! 0) = hash (chain scenarioLedger ! 0)
           \<and> (\<forall>j < i. hash (chain scenarioLedger ! j) \<noteq> hash (chain scenarioLedger ! 0))"
    using len by (intro exI [of _ 0]) simp
  with qs have "q = Some (chain scenarioLedger ! 0)" by blast
  with q have 3: "getBlockByHash scenarioLedger (hash (chain scenarioLedger ! 0))
       = Resolved (Some (chain scenarioLedger ! 0))"
    by simp
  show ?thesis by (intro conjI 1 2 3 4)
qed

section \<open>Stars of an owner\<close>









section \<open>Validating the chain\<close>

lemma validateStep_cases:
  "validateStep v ch i errorLog =
     (if v (ch ! i) = Some True
         \<and> (genesisShaped (ch ! i)
              \<or> (i \<noteq> 0 \<and> previousBlockHash (ch ! i) = hash (ch ! (i - 1))
                  \<and> height (ch ! i) = height (ch ! (i - 1)) + 1))
      then errorLog else errorLog @ [errorEntry (ch ! i)])"
proof (cases "v (ch ! i)")
  case None
  then show ?thesis
    by (simp add: validateStep_def)
next
  case (Some ok)
  then show ?thesis
    by (cases ok) (simp_all add: validateStep_def genesisShaped_def Let_def)
qed

lemma flagged_iff:
  "flagged v ch i \<longleftrightarrow>
     (v (ch ! i) \<noteq> Some True
      \<or> (\<not> genesisShaped (ch ! i)
          \<and> (i = 0 \<or> previousBlockHash (ch ! i) \<noteq> hash (ch ! (i - 1))
               \<or> height (ch ! i) \<noteq> height (ch ! (i - 1)) + 1)))"
  unfolding flagged_def validateStep_cases by auto

lemma validateStep_flagged:
  "validateStep v ch i errorLog =
     (if flagged v ch i then errorLog @ [errorEntry (ch ! i)] else errorLog)"
  unfolding flagged_iff validateStep_cases by auto

lemma validateLoop_eq:
  "validateLoop v ch i errorLog =
     errorLog @ map (\<lambda>j. errorEntry (ch ! j)) (filter (flagged v ch) [i..<length ch])"
proof (induction v ch i errorLog rule: validateLoop.induct)
  case (1 v ch i errorLog)
  show ?case
  proof (cases "i < length ch")
    case True
    then have "[i..<length ch] = i # [i + 1..<length ch]"
      by (simp add: upt_conv_Cons)
    with True 1 show ?thesis
      by (subst validateLoop.simps) (simp add: validateStep_flagged)
  next
    case False
    then show ?thesis
      by (subst validateLoop.simps) simp
  qed
qed

lemma validateChain_eq:
  "validateChain v s =
     Resolved (map (\<lambda>j. errorEntry (chain s ! j))
                 (filter (flagged v (chain s)) [0..<length (chain s)]))"
  by (simp add: validateChain_def validateLoop_eq)


lemma built_not_flagged:
  assumes b: "built digest s" and i: "i < length (chain s)"
  shows "\<not> flagged (validate_block digest) (chain s) i"
proof -
  note f = built_chain [OF b i]
  from f have v: "validate_block digest (chain s ! i) = Some True"
    by (auto simp: validate_block_def recomputeHash_def encode_def)
  show ?thesis
  proof (cases "i = 0")
    case True
    with f v show ?thesis
      by (simp add: flagged_iff genesisShaped_def)
  next
    case False
    then have "i - 1 < length (chain s)"
      using i by arith
    from built_chain [OF b this] f v False show ?thesis
      by (simp add: flagged_iff)
  qed
qed

lemma built_validates:
  "built digest s \<Longrightarrow> validateChain (validate_block digest) s = Resolved []"
proof -
  assume b: "built digest s"
  have "filter (flagged (validate_block digest) (chain s)) [0..<length (chain s)] = []"
    using built_not_flagged [OF b] by (simp add: filter_empty_conv)
  then show ?thesis
    by (simp add: validateChain_eq)
qed

lemma validate_nextBlock: "validate_block digest (nextBlock digest now d ch) = Some True"
  by (simp add: validate_block_def recomputeHash_def nextBlock_fields encode_def)

lemma splicedLedger_eq:
  "splicedLedger =
     \<lparr>chain = [nextBlock fieldsText 1638090052000 genesisData [],
                nextBlock fieldsText 1638090352000 genesisData []],
      this_height = 1\<rparr>"
  by (simp add: splicedLedger_def newBlockchain_eq)

lemma splicedLedger_second:
  "validate_block fieldsText (chain splicedLedger ! 1) = Some True"
  "previousBlockHash (chain splicedLedger ! 1) = None"
  "height (chain splicedLedger ! 1) = 1"
  "hash (chain splicedLedger ! 0) \<noteq> None"
  "height (chain splicedLedger ! 0) = 1"
  "length (chain splicedLedger) = 2"
  by (simp_all add: splicedLedger_eq validate_nextBlock nextBlock_fields)

lemma splicedLedger_validates:
  "validateChain (validate_block fieldsText) splicedLedger = Resolved []"
proof -
  have "\<not> flagged (validate_block fieldsText) (chain splicedLedger) i" if "i < 2" for i
  proof -
    from that have "i = 0 \<or> i = 1" by arith
    then show ?thesis
      by (auto simp: flagged_iff genesisShaped_def splicedLedger_eq validate_nextBlock
          nextBlock_fields)
  qed
  then have "filter (flagged (validate_block fieldsText) (chain splicedLedger))
      [0..<length (chain splicedLedger)] = []"
    by (simp add: splicedLedger_second filter_empty_conv)
  then show ?thesis
    by (simp add: validateChain_eq)
qed

text \<open>
  C3, as stated, fails on the code. In \<open>splicedLedger\<close> the Record at index 1 is not
  the first Record of the chain, its own hash is intact, its \<open>previousBlockHash\<close> is
  not the hash of the Record before it and its height is not that Record's height plus
  1; the chain does not satisfy the link invariant. \<open>validateChain\<close> records no entry
  for it and resolves with the empty list.
\<close>

theorem validateChain_misses_second_genesis:
  "validateChain (validate_block fieldsText) splicedLedger = Resolved []
   \<and> validate_block fieldsText (chain splicedLedger ! 1) = Some True
   \<and> previousBlockHash (chain splicedLedger ! 1) \<noteq> hash (chain splicedLedger ! 0)
   \<and> height (chain splicedLedger ! 1) \<noteq> height (chain splicedLedger ! 0) + 1
   \<and> \<not> linked (chain splicedLedger)"
proof -
  have l: "\<not> linked (chain splicedLedger)"
  proof
    assume "linked (chain splicedLedger)"
    then have "height (chain splicedLedger ! 1) = height (chain splicedLedger ! (1 - 1)) + 1"
      unfolding linked_def using splicedLedger_second(6) by simp
    then show False
      using splicedLedger_second(3,5) by simp
  qed
  from splicedLedger_second have
    "previousBlockHash (chain splicedLedger ! 1) \<noteq> hash (chain splicedLedger ! 0)"
    "height (chain splicedLedger ! 1) \<noteq> height (chain splicedLedger ! 0) + 1"
    by auto
  with l splicedLedger_validates splicedLedger_second(1) show ?thesis
    by (intro conjI)
qed

lemma errorLog_subseq:
  "subseq (map (\<lambda>j. errorEntry (ch ! j)) (filter P [0..<length ch])) (map errorEntry ch)"
proof -
  have "map (\<lambda>j. errorEntry (ch ! j)) [0..<length ch] = map errorEntry ch"
    by (rule nth_equalityI) simp_all
  moreover have "subseq (map (\<lambda>j. errorEntry (ch ! j)) (filter P [0..<length ch]))
      (map (\<lambda>j. errorEntry (ch ! j)) [0..<length ch])"
    by (intro subseq_map subseq_filter_left)
  ultimately show ?thesis by simp
qed

text \<open>
  C3, amended. For every chain state and whatever \<open>validate\<close> does, \<open>validateChain\<close>
  resolves: with a list of entries of Records in chain order, one for each index whose
  passage pushes one. The list is empty exactly when every Record validates and is
  either genesis-shaped (\<open>previousBlockHash\<close> \<open>null\<close> and height 1, at whatever
  index) or stands at an index \<open>i > 0\<close> with the hash of the Record before it as
  \<open>previousBlockHash\<close> and its height plus 1 as height. A Record whose validation
  resolves with false or throws gets an entry; so does a Record that validates, is not
  genesis-shaped, and has a wrong \<open>previousBlockHash\<close>, a wrong height or no
  predecessor at all (index 0, where the failing read is caught).
\<close>

theorem validateChain_reports:
  "\<exists>log. validateChain validate s = Resolved log
     \<and> subseq log (map errorEntry (chain s))
     \<and> (log = [] \<longleftrightarrow>
          (\<forall>i < length (chain s).
             validate (chain s ! i) = Some True
             \<and> (genesisShaped (chain s ! i)
                  \<or> (0 < i \<and> previousBlockHash (chain s ! i) = hash (chain s ! (i - 1))
                      \<and> height (chain s ! i) = height (chain s ! (i - 1)) + 1))))
     \<and> (\<forall>i < length (chain s).
          validate (chain s ! i) \<noteq> Some True \<longrightarrow> errorEntry (chain s ! i) \<in> set log)
     \<and> (\<forall>i < length (chain s).
          validate (chain s ! i) = Some True \<and> \<not> genesisShaped (chain s ! i)
          \<and> (i = 0 \<or> previousBlockHash (chain s ! i) \<noteq> hash (chain s ! (i - 1))
               \<or> height (chain s ! i) \<noteq> height (chain s ! (i - 1)) + 1)
          \<longrightarrow> errorEntry (chain s ! i) \<in> set log)
     \<and> length log = length (filter (flagged validate (chain s)) [0..<length (chain s)])"
proof -
  let ?ch = "chain s"
  let ?log = "map (\<lambda>j. errorEntry (?ch ! j)) (filter (flagged validate ?ch) [0..<length ?ch])"
  have mem: "errorEntry (?ch ! i) \<in> set ?log" if "i < length ?ch" "flagged validate ?ch i" for i
    using that by (auto simp: image_iff)
  have c1: "validateChain validate s = Resolved ?log"
    by (rule validateChain_eq)
  have c2: "subseq ?log (map errorEntry ?ch)"
    by (rule errorLog_subseq)
  have c3: "?log = [] \<longleftrightarrow>
          (\<forall>i < length ?ch.
             validate (?ch ! i) = Some True
             \<and> (genesisShaped (?ch ! i)
                  \<or> (0 < i \<and> previousBlockHash (?ch ! i) = hash (?ch ! (i - 1))
                      \<and> height (?ch ! i) = height (?ch ! (i - 1)) + 1)))"
    by (auto simp: filter_empty_conv flagged_iff)
  have c4: "\<forall>i < length ?ch.
          validate (?ch ! i) \<noteq> Some True \<longrightarrow> errorEntry (?ch ! i) \<in> set ?log"
    using mem by (simp add: flagged_iff)
  have c5: "\<forall>i < length ?ch.
          validate (?ch ! i) = Some True \<and> \<not> genesisShaped (?ch ! i)
          \<and> (i = 0 \<or> previousBlockHash (?ch ! i) \<noteq> hash (?ch ! (i - 1))
               \<or> height (?ch ! i) \<noteq> height (?ch ! (i - 1)) + 1)
          \<longrightarrow> errorEntry (?ch ! i) \<in> set ?log"
    using mem by (simp add: flagged_iff)
  have c6: "length ?log = length (filter (flagged validate ?ch) [0..<length ?ch])"
    by simp
  show ?thesis
    by (intro exI [of _ ?log] conjI c1 c2 c3 c4 c5 c6)
qed

theorem validateChain_reports_witness:
  "validateChain (validate_block fieldsText) scenarioLedger = Resolved []
   \<and> validateChain (\<lambda>b. None) scenarioLedger \<noteq> Resolved []
   \<and> validateChain (validate_block fieldsText)
        \<lparr>chain = [chain scenarioLedger ! 1], this_height = 2\<rparr> \<noteq> Resolved []"
proof -
  have len: "0 < length (chain scenarioLedger)"
    by (simp add: scenarioLedger_eq)
  from validateChain_reports [of "\<lambda>b. None" scenarioLedger]
  obtain log1 where l1: "validateChain (\<lambda>b. None) scenarioLedger = Resolved log1"
    and m1: "\<forall>i < length (chain scenarioLedger).
          (\<lambda>b. None) (chain scenarioLedger ! i) \<noteq> Some True
            \<longrightarrow> errorEntry (chain scenarioLedger ! i) \<in> set log1"
    by blast
  from m1 len have "errorEntry (chain scenarioLedger ! 0) \<in> set log1"
    by simp
  then have "log1 \<noteq> []" by auto
  with l1 have 2: "validateChain (\<lambda>b. None) scenarioLedger \<noteq> Resolved []"
    by simp
  let ?t = "\<lparr>chain = [chain scenarioLedger ! 1], this_height = 2\<rparr>"
  have shape: "validate_block fieldsText (chain ?t ! 0) = Some True"
    "\<not> genesisShaped (chain ?t ! 0)" "0 < length (chain ?t)"
    by (simp_all add: scenarioLedger_eq validate_nextBlock genesisShaped_def nextBlock_fields)
  from validateChain_reports [of "validate_block fieldsText" ?t]
  obtain log2 where l2: "validateChain (validate_block fieldsText) ?t = Resolved log2"
    and m2: "\<forall>i < length (chain ?t).
          validate_block fieldsText (chain ?t ! i) = Some True \<and> \<not> genesisShaped (chain ?t ! i)
          \<and> (i = 0 \<or> previousBlockHash (chain ?t ! i) \<noteq> hash (chain ?t ! (i - 1))
               \<or> height (chain ?t ! i) \<noteq> height (chain ?t ! (i - 1)) + 1)
          \<longrightarrow> errorEntry (chain ?t ! i) \<in> set log2"
    by blast
  from m2 shape have "errorEntry (chain ?t ! 0) \<in> set log2"
    by blast
  then have "log2 \<noteq> []" by auto
  with l2 have 3: "validateChain (validate_block fieldsText) ?t \<noteq> Resolved []"
    by simp
  from validateChain_reports [of "validate_block fieldsText" scenarioLedger]
  obtain log0 where l0: "validateChain (validate_block fieldsText) scenarioLedger = Resolved log0"
    and e0: "length log0 = length (filter (flagged (validate_block fieldsText)
                (chain scenarioLedger)) [0..<length (chain scenarioLedger)])"
    by blast
  have "filter (flagged (validate_block fieldsText) (chain scenarioLedger))
      [0..<length (chain scenarioLedger)] = []"
    using built_not_flagged [OF built_scenarioLedger] by (simp add: filter_empty_conv)
  with e0 have "log0 = []" by simp
  with l0 have 1: "validateChain (validate_block fieldsText) scenarioLedger = Resolved []"
    by simp
  show ?thesis by (intro conjI 1 2 3)
qed

text \<open>
  C10. A Record that validates and has \<open>previousBlockHash\<close> \<open>null\<close> and height 1
  adds no entry to the error log, at whatever index it stands: the passage of the loop
  for it leaves the log as it is, also when the Record before it is replaced by any
  other (the link is not looked at), and the result of \<open>validateChain\<close> is made of the
  entries of the other indices only.
\<close>

theorem genesis_shaped_exempt:
  "i < length (chain s) \<and> validate (chain s ! i) = Some True
     \<and> previousBlockHash (chain s ! i) = None \<and> height (chain s ! i) = 1
   \<longrightarrow> validateStep validate (chain s) i errorLog = errorLog
       \<and> (0 < i \<longrightarrow> validateStep validate ((chain s)[i - 1 := x]) i errorLog = errorLog)
       \<and> validateChain validate s =
           Resolved (map (\<lambda>j. errorEntry (chain s ! j))
                       (filter (\<lambda>j. j \<noteq> i \<and> flagged validate (chain s) j)
                          [0..<length (chain s)]))"
proof
  assume a: "i < length (chain s) \<and> validate (chain s ! i) = Some True
     \<and> previousBlockHash (chain s ! i) = None \<and> height (chain s ! i) = 1"
  then have nf: "\<not> flagged validate (chain s) i"
    by (simp add: flagged_iff genesisShaped_def)
  then have c1: "validateStep validate (chain s) i errorLog = errorLog"
    by (simp add: validateStep_flagged)
  have c2: "0 < i \<longrightarrow> validateStep validate ((chain s)[i - 1 := x]) i errorLog = errorLog"
  proof
    assume "0 < i"
    then have "(chain s)[i - 1 := x] ! i = chain s ! i" by simp
    with a show "validateStep validate ((chain s)[i - 1 := x]) i errorLog = errorLog"
      by (simp add: validateStep_cases genesisShaped_def)
  qed
  from nf have "filter (flagged validate (chain s)) [0..<length (chain s)]
      = filter (\<lambda>j. j \<noteq> i \<and> flagged validate (chain s) j) [0..<length (chain s)]"
    by (intro filter_cong) auto
  then have c3: "validateChain validate s =
           Resolved (map (\<lambda>j. errorEntry (chain s ! j))
                       (filter (\<lambda>j. j \<noteq> i \<and> flagged validate (chain s) j)
                          [0..<length (chain s)]))"
    by (simp add: validateChain_eq)
  show "validateStep validate (chain s) i errorLog = errorLog
       \<and> (0 < i \<longrightarrow> validateStep validate ((chain s)[i - 1 := x]) i errorLog = errorLog)
       \<and> validateChain validate s =
           Resolved (map (\<lambda>j. errorEntry (chain s ! j))
                       (filter (\<lambda>j. j \<noteq> i \<and> flagged validate (chain s) j)
                          [0..<length (chain s)]))"
    by (intro conjI c1 c2 c3)
qed


theorem genesis_shaped_exempt_witness:
  "validateStep (validate_block fieldsText) (chain splicedLedger) 1 [] = []
   \<and> validateStep (validate_block fieldsText)
        ((chain splicedLedger)[0 := Block genesisData]) 1 [] = []
   \<and> previousBlockHash (chain splicedLedger ! 1) \<noteq> hash (chain splicedLedger ! 0)"
proof -
  have hyp: "1 < length (chain splicedLedger)
     \<and> validate_block fieldsText (chain splicedLedger ! 1) = Some True
     \<and> previousBlockHash (chain splicedLedger ! 1) = None
     \<and> height (chain splicedLedger ! 1) = 1"
    using splicedLedger_second by simp
  from genesis_shaped_exempt [where i = 1 and s = splicedLedger
      and validate = "validate_block fieldsText" and errorLog = "[]"
      and x = "Block genesisData", THEN mp, OF hyp]
  have "validateStep (validate_block fieldsText) (chain splicedLedger) 1 [] = []"
    and "validateStep (validate_block fieldsText)
        ((chain splicedLedger)[1 - 1 := Block genesisData]) 1 [] = []"
    by simp_all
  moreover have "previousBlockHash (chain splicedLedger ! 1) \<noteq> hash (chain splicedLedger ! 0)"
    using splicedLedger_second by auto
  ultimately show ?thesis by simp
qed

end
